theory Spec2Isabelle
  imports Complex_Main "HOL-Library.AList"
begin

section \<open>Numbers and errors of the mapper\<close>

text \<open>
  The mapper (core/midi_mapper.py) works on Python numbers. \<open>int(x)\<close> of Python truncates
  toward zero and \<open>x % m\<close> with a positive \<open>m\<close> lands in \<open>[0, m)\<close>. Every exception the
  mapper can raise is a value of \<open>error\<close>, and a function that can raise returns
  \<open>error + 'a\<close>.
\<close>

datatype error = KeyError | ValueError | ZeroDivisionError | IndexError | AttributeError | TypeError

definition bind_err :: "error + 'a \<Rightarrow> ('a \<Rightarrow> error + 'b) \<Rightarrow> error + 'b" where
  "bind_err r f = (case r of Inl e \<Rightarrow> Inl e | Inr v \<Rightarrow> f v)"

definition py_int :: "real \<Rightarrow> int" where
  "py_int x = (if 0 \<le> x then \<lfloor>x\<rfloor> else \<lceil>x\<rceil>)"

definition py_fmod :: "real \<Rightarrow> real \<Rightarrow> real" where
  "py_fmod x m = x - m * of_int \<lfloor>x / m\<rfloor>"

definition get_or :: "'a option \<Rightarrow> 'a \<Rightarrow> 'a" where
  "get_or v d = (case v of None \<Rightarrow> d | Some x \<Rightarrow> x)"

subsection \<open>Double precision\<close>

text \<open>
  A timestamp is a Python float, an IEEE double; a whole number is a double too as long as
  it stays below \<open>2 ^ 53\<close>. An operation on doubles returns the exact result rounded to
  the nearest double, a tie going to the even mantissa: \<open>fl\<close> is that rounding, to 53
  significant bits. The exponent is not bounded here, so overflow and subnormal numbers,
  which no time in milliseconds reaches, are left out. The tick conversion and the time
  differences of the details track are computed this way; the arithmetic on the signal
  values (hue, brightness, intensity, direction) and the time differences of the other two
  tracks are kept exact.
\<close>

definition pow2 :: "int \<Rightarrow> real" where
  "pow2 e = (if 0 \<le> e then 2 ^ nat e else 1 / 2 ^ nat (- e))"

fun bit_length :: "nat \<Rightarrow> nat" where
  "bit_length n = (if n = 0 then 0 else Suc (bit_length (n div 2)))"

definition ilog2 :: "real \<Rightarrow> int" where
  "ilog2 y = (if 1 \<le> y then int (bit_length (nat \<lfloor>y\<rfloor>)) - 1
              else - int (bit_length (nat (\<lceil>1 / y\<rceil> - 1))))"

definition round_even :: "real \<Rightarrow> int" where
  "round_even m =
     (if m - of_int \<lfloor>m\<rfloor> < 1 / 2 then \<lfloor>m\<rfloor>
      else if 1 / 2 < m - of_int \<lfloor>m\<rfloor> then \<lfloor>m\<rfloor> + 1
      else if even \<lfloor>m\<rfloor> then \<lfloor>m\<rfloor> else \<lfloor>m\<rfloor> + 1)"

definition fl :: "real \<Rightarrow> real" where
  "fl x = (if x = 0 then 0
           else of_int (round_even (x / pow2 (ilog2 \<bar>x\<bar> - 52))) * pow2 (ilog2 \<bar>x\<bar> - 52))"

definition fmul :: "real \<Rightarrow> real \<Rightarrow> real" where
  "fmul a b = fl (a * b)"

definition fdiv :: "real \<Rightarrow> real \<Rightarrow> real" where
  "fdiv a b = fl (a / b)"

definition fsub :: "real \<Rightarrow> real \<Rightarrow> real" where
  "fsub a b = fl (a - b)"

subsection \<open>Tick conversion\<close>

definition ticks_per_beat :: real where
  "ticks_per_beat = 480"

definition tempo :: real where
  "tempo = 500000"

definition ms_to_ticks :: "real \<Rightarrow> int" where
  "ms_to_ticks milliseconds = py_int (fdiv (fmul milliseconds ticks_per_beat) (fdiv tempo 1000))"

section \<open>Messages\<close>

text \<open>
  A track is the list of messages appended to it. The constructors below are the calls of
  \<open>mido.Message\<close> the mapper makes, with the library's behaviour written out: an argument
  the call leaves out takes mido's default (channel 0, velocity 64, time 0), and a data byte
  (note, velocity, control, value, program) outside 0..127 or a channel outside 0..15 raises
  ValueError.
\<close>

datatype message =
    SetTempo int
  | ProgramChange int int int
  | ControlChange int int int int
  | NoteOn int int int int
  | NoteOff int int int int

fun msg_time :: "message \<Rightarrow> int" where
  "msg_time (SetTempo t) = 0"
| "msg_time (ProgramChange c p t) = t"
| "msg_time (ControlChange c k v t) = t"
| "msg_time (NoteOn c n v t) = t"
| "msg_time (NoteOff c n v t) = t"

fun msg_channel :: "message \<Rightarrow> int option" where
  "msg_channel (SetTempo t) = None"
| "msg_channel (ProgramChange c p t) = Some c"
| "msg_channel (ControlChange c k v t) = Some c"
| "msg_channel (NoteOn c n v t) = Some c"
| "msg_channel (NoteOff c n v t) = Some c"




definition data_byte :: "int \<Rightarrow> bool" where
  "data_byte v = (0 \<le> v \<and> v \<le> 127)"

fun msg_in_range :: "message \<Rightarrow> bool" where
  "msg_in_range (SetTempo t) = True"
| "msg_in_range (ProgramChange c p t) = (0 \<le> c \<and> c \<le> 15 \<and> data_byte p)"
| "msg_in_range (ControlChange c k v t) = (0 \<le> c \<and> c \<le> 15 \<and> data_byte k \<and> data_byte v)"
| "msg_in_range (NoteOn c n v t) = (0 \<le> c \<and> c \<le> 15 \<and> data_byte n \<and> data_byte v)"
| "msg_in_range (NoteOff c n v t) = (0 \<le> c \<and> c \<le> 15 \<and> data_byte n \<and> data_byte v)"

definition Message :: "message \<Rightarrow> error + message" where
  "Message m = (if msg_in_range m then Inr m else Inl ValueError)"

definition program_change :: "int \<Rightarrow> int \<Rightarrow> int \<Rightarrow> error + message" where
  "program_change program channel time = Message (ProgramChange channel program time)"

definition control_change :: "int \<Rightarrow> int \<Rightarrow> int \<Rightarrow> error + message" where
  "control_change control val time = Message (ControlChange 0 control val time)"

definition note_on :: "int \<Rightarrow> int \<Rightarrow> int \<Rightarrow> error + message" where
  "note_on note velocity time = Message (NoteOn 0 note velocity time)"

definition note_off :: "int \<Rightarrow> int \<Rightarrow> error + message" where
  "note_off note time = Message (NoteOff 0 note 64 time)"

section \<open>Samples and track settings\<close>

text \<open>
  A sample is a dictionary; a key it may lack is an optional field. \<open>event.get(k, 0)\<close> is
  \<open>get_or\<close> with 0, \<open>event[k]\<close> raises KeyError on a missing key. The settings of a track
  are read with \<open>config.get(k, default)\<close>, so each is optional too. A setting that is
  present has the type its default has: programs, notes, scale degrees and the note range
  are integers, decays and thresholds are numbers. A detail event carries the blob's
  position as well, since the mapper compares whole events.
\<close>

record bg_sample =
  bg_time :: "real option"
  hue_shift :: "real option"
  value_shift :: "real option"

record motion_sample =
  m_time :: "real option"
  intensity :: "real option"
  direction :: "real option"

record detail_event =
  d_time :: "real option"
  d_hue :: "real option"
  d_size :: "real option"
  d_x :: "real option"
  d_y :: "real option"

record bg_config =
  bg_program :: "int option"
  bg_base_note :: "int option"
  bg_decay :: "real option"

record medium_config =
  m_program :: "int option"
  m_scale :: "int list option"
  m_base_octave :: "int option"
  m_decay :: "real option"
  m_intensity_threshold :: "real option"

record details_config =
  d_program :: "int option"
  d_note_range :: "int list option"
  d_group_threshold :: "real option"

record tracks_config =
  cfg_background :: "bg_config option"
  cfg_medium :: "medium_config option"
  cfg_details :: "details_config option"

definition empty_bg_config :: bg_config where
  "empty_bg_config = \<lparr>bg_program = None, bg_base_note = None, bg_decay = None\<rparr>"

definition empty_medium_config :: medium_config where
  "empty_medium_config = \<lparr>m_program = None, m_scale = None, m_base_octave = None,
     m_decay = None, m_intensity_threshold = None\<rparr>"

definition empty_details_config :: details_config where
  "empty_details_config = \<lparr>d_program = None, d_note_range = None, d_group_threshold = None\<rparr>"

text \<open>The settings \<open>default_config\<close> of the constructor holds, merged with an empty user file.\<close>

definition default_config :: tracks_config where
  "default_config = \<lparr>
     cfg_background = Some \<lparr>bg_program = Some 52, bg_base_note = Some 36, bg_decay = Some 15000\<rparr>,
     cfg_medium = Some \<lparr>m_program = Some 74, m_scale = Some [0, 2, 4, 7, 9], m_base_octave = None,
       m_decay = None, m_intensity_threshold = None\<rparr>,
     cfg_details = Some \<lparr>d_program = Some 127, d_note_range = Some [84, 96],
       d_group_threshold = None\<rparr>\<rparr>"

section \<open>Background track\<close>

fun background_loop ::
  "int \<Rightarrow> real \<Rightarrow> real \<Rightarrow> real \<Rightarrow> message list \<Rightarrow> bg_sample list \<Rightarrow> error + message list" where
  "background_loop base_note decay last_time last_hue track [] = Inr track"
| "background_loop base_note decay last_time last_hue track (event # rest) =
     (case bg_time event of
        None \<Rightarrow> Inl KeyError
      | Some t \<Rightarrow>
          let delta_ticks = ms_to_ticks (t - last_time);
              hue_change = \<bar>get_or (hue_shift event) 0 - last_hue\<bar>;
              mod_value = min (py_int (hue_change * 127)) 127
          in bind_err (control_change 1 mod_value delta_ticks) (\<lambda>cc.
             if get_or (value_shift event) 0 < 0 then Inl ValueError
             else
               let velocity = py_int (sqrt (get_or (value_shift event) 0) * 127)
               in bind_err (note_on base_note velocity 0) (\<lambda>on.
                  bind_err (note_off base_note (ms_to_ticks decay)) (\<lambda>off.
                  background_loop base_note decay t (get_or (hue_shift event) 0)
                    (track @ [cc, on, off]) rest))))"

definition create_background_track :: "tracks_config \<Rightarrow> bg_sample list \<Rightarrow> error + message list" where
  "create_background_track cfg data =
     (let config = get_or (cfg_background cfg) empty_bg_config;
          program = get_or (bg_program config) 52;
          base_note = get_or (bg_base_note config) 36;
          decay = get_or (bg_decay config) 15000
      in bind_err (program_change program 0 0) (\<lambda>pc.
         background_loop base_note decay 0 0 [pc] data))"

section \<open>Medium track\<close>

definition direction_to_note :: "real \<Rightarrow> int list \<Rightarrow> int \<Rightarrow> error + int" where
  "direction_to_note angle scale octave =
     (let angle' = py_fmod angle 360;
          note_index = py_int ((angle' / 360) * real (length scale))
      in if length scale = 0 then Inl ZeroDivisionError
         else Inr (scale ! nat (note_index mod int (length scale)) + octave * 12))"

fun medium_loop ::
  "int list \<Rightarrow> int \<Rightarrow> real \<Rightarrow> real \<Rightarrow> real \<Rightarrow> message list \<Rightarrow> motion_sample list
     \<Rightarrow> error + message list" where
  "medium_loop scale base_octave decay threshold last_time track [] = Inr track"
| "medium_loop scale base_octave decay threshold last_time track (event # rest) =
     (if get_or (intensity event) 0 < threshold
      then medium_loop scale base_octave decay threshold last_time track rest
      else
        (case m_time event of
           None \<Rightarrow> Inl KeyError
         | Some t \<Rightarrow>
             let delta_ticks = ms_to_ticks (t - last_time)
             in bind_err (direction_to_note (get_or (direction event) 0) scale base_octave) (\<lambda>note.
                let velocity = py_int (min (get_or (intensity event) 0 * 127) 127)
                in bind_err (note_on note velocity delta_ticks) (\<lambda>on.
                   bind_err (note_off note (ms_to_ticks decay)) (\<lambda>off.
                   medium_loop scale base_octave decay threshold t (track @ [on, off]) rest)))))"

definition create_medium_track :: "tracks_config \<Rightarrow> motion_sample list \<Rightarrow> error + message list" where
  "create_medium_track cfg data =
     (let config = get_or (cfg_medium cfg) empty_medium_config;
          program = get_or (m_program config) 74;
          scale = get_or (m_scale config) [0, 2, 4, 7, 9];
          base_octave = get_or (m_base_octave config) 4;
          decay = get_or (m_decay config) 500;
          threshold = get_or (m_intensity_threshold config) 1
      in bind_err (program_change program 1 0) (\<lambda>pc.
         medium_loop scale base_octave decay threshold 0 [pc] data))"

section \<open>Details track\<close>

definition hue_to_note :: "real \<Rightarrow> int list \<Rightarrow> error + int" where
  "hue_to_note hue note_range =
     (if length note_range < 2 then Inl IndexError
      else Inr (py_int (real_of_int (note_range ! 0)
                  + (hue / 180) * real_of_int (note_range ! 1 - note_range ! 0))))"

text \<open>Python's \<open>max(events, key=...)\<close>: the first element whose key is not exceeded.\<close>

fun max_by :: "('a \<Rightarrow> real) \<Rightarrow> 'a \<Rightarrow> 'a list \<Rightarrow> 'a" where
  "max_by key best [] = best"
| "max_by key best (x # xs) = (if key best < key x then max_by key x xs else max_by key best xs)"

definition main_event_of :: "detail_event list \<Rightarrow> detail_event" where
  "main_event_of events = max_by (\<lambda>x. get_or (d_size x) 0) (hd events) (tl events)"

fun secondary_loop ::
  "int list \<Rightarrow> detail_event \<Rightarrow> message list \<Rightarrow> detail_event list \<Rightarrow> error + message list" where
  "secondary_loop note_range main_event track [] = Inr track"
| "secondary_loop note_range main_event track (event # rest) =
     (if event = main_event then secondary_loop note_range main_event track rest
      else bind_err (hue_to_note (get_or (d_hue event) 0) note_range) (\<lambda>note.
           bind_err (note_on note 90 0) (\<lambda>on.
           bind_err (note_off note (ms_to_ticks 30)) (\<lambda>off.
           secondary_loop note_range main_event (track @ [on, off]) rest))))"

definition add_note_cluster ::
  "message list \<Rightarrow> detail_event list \<Rightarrow> int list \<Rightarrow> error + message list" where
  "add_note_cluster track events note_range =
     (if events = [] then Inr track
      else
        let main_event = main_event_of events
        in bind_err (hue_to_note (get_or (d_hue main_event) 0) note_range) (\<lambda>main_note.
           bind_err (if track \<noteq> []
                     then (case d_time main_event of
                             None \<Rightarrow> Inl KeyError
                           | Some t \<Rightarrow> Inr (ms_to_ticks (fsub t (real_of_int (msg_time (last track))))))
                     else Inr (ms_to_ticks 0)) (\<lambda>delta_ticks.
           bind_err (note_on main_note 127 delta_ticks) (\<lambda>on.
           bind_err (note_off main_note (ms_to_ticks 50)) (\<lambda>off.
           secondary_loop note_range main_event (track @ [on, off]) events)))))"

fun details_loop ::
  "real \<Rightarrow> int list \<Rightarrow> message list \<Rightarrow> detail_event list \<Rightarrow> detail_event list
     \<Rightarrow> error + message list" where
  "details_loop group_threshold note_range track current_group [] =
     (if current_group \<noteq> [] then add_note_cluster track current_group note_range else Inr track)"
| "details_loop group_threshold note_range track current_group (event # rest) =
     bind_err
       (if current_group \<noteq> []
        then (case d_time event of
                None \<Rightarrow> Inl KeyError
              | Some t \<Rightarrow>
                  (case d_time (last current_group) of
                     None \<Rightarrow> Inl KeyError
                   | Some t' \<Rightarrow>
                       if group_threshold < fsub t t'
                       then bind_err (add_note_cluster track current_group note_range)
                              (\<lambda>track'. Inr (track', []))
                       else Inr (track, current_group)))
        else Inr (track, current_group))
       (\<lambda>(track', group').
          case d_time event of
            None \<Rightarrow> Inl KeyError
          | Some t \<Rightarrow> details_loop group_threshold note_range track' (group' @ [event]) rest)"

definition create_details_track :: "tracks_config \<Rightarrow> detail_event list \<Rightarrow> error + message list" where
  "create_details_track cfg data =
     (let config = get_or (cfg_details cfg) empty_details_config;
          program = get_or (d_program config) 127;
          note_range = get_or (d_note_range config) [84, 96];
          group_threshold = get_or (d_group_threshold config) 50
      in bind_err (program_change program 2 0) (\<lambda>pc.
         details_loop group_threshold note_range [pc] [] data))"

section \<open>The assembled file\<close>

record analysis_data =
  background :: "bg_sample list option"
  medium :: "motion_sample list option"
  details :: "detail_event list option"

record midi_file =
  file_ticks_per_beat :: real
  tracks :: "message list list"

definition create_multitrack_midi :: "tracks_config \<Rightarrow> analysis_data \<Rightarrow> error + midi_file" where
  "create_multitrack_midi cfg data =
     (let meta_track = [SetTempo (py_int tempo)]
      in bind_err (create_background_track cfg (get_or (background data) [])) (\<lambda>bg.
         bind_err (create_medium_track cfg (get_or (medium data) [])) (\<lambda>med.
         bind_err (create_details_track cfg (get_or (details data) [])) (\<lambda>det.
         Inr \<lparr>file_ticks_per_beat = ticks_per_beat, tracks = [meta_track, bg, med, det]\<rparr>))))"

section \<open>Merging configurations\<close>

text \<open>
  A configuration value as YAML loads it. A dictionary keeps its keys in insertion order;
  assigning to a key it has replaces the value in place, assigning to a new key appends.
  \<open>_merge_configs\<close> copies the default with \<open>default.copy()\<close>: a number, a string, a
  boolean or None has no such method (AttributeError), a list has one but takes no string
  key (TypeError at the first assignment).
\<close>

datatype pyval =
    PNone
  | PBool bool
  | PNum real
  | PStr string
  | PList "pyval list"
  | PDict "(string \<times> pyval) list"

fun is_dict :: "pyval \<Rightarrow> bool" where
  "is_dict (PDict d) = True"
| "is_dict v = False"

fun merge_configs :: "pyval \<Rightarrow> pyval \<Rightarrow> error + pyval"
  and merge_items :: "(string \<times> pyval) list \<Rightarrow> (string \<times> pyval) list \<Rightarrow> error + (string \<times> pyval) list"
where
  "merge_configs (PDict d) (PDict u) = bind_err (merge_items d u) (\<lambda>r. Inr (PDict r))"
| "merge_configs (PList xs) (PDict []) = Inr (PList xs)"
| "merge_configs (PList xs) (PDict (kv # u)) = Inl TypeError"
| "merge_configs d u = Inl AttributeError"
| "merge_items result [] = Inr result"
| "merge_items result ((key, val) # rest) =
     (if is_dict val \<and> map_of result key \<noteq> None
      then bind_err (merge_configs (the (map_of result key)) val) (\<lambda>m.
           merge_items (AList.update key m result) rest)
      else merge_items (AList.update key val result) rest)"

text \<open>
  \<open>Config.update\<close> (core/config_manager.py): \<open>tracks\<close> maps a track name to a dictionary,
  and so does the \<open>tracks\<close> entry of a preset, which may be absent.
\<close>

type_synonym track_table = "(string \<times> (string \<times> pyval) list) list"

definition dict_update :: "(string \<times> pyval) list \<Rightarrow> (string \<times> pyval) list \<Rightarrow> (string \<times> pyval) list" where
  "dict_update d other = foldl (\<lambda>acc (k, v). AList.update k v acc) d other"

definition config_update :: "track_table \<Rightarrow> track_table option \<Rightarrow> track_table" where
  "config_update self_tracks preset =
     (case preset of
        None \<Rightarrow> self_tracks
      | Some preset_tracks \<Rightarrow>
          foldl (\<lambda>acc (track_name, track_config).
                   case map_of acc track_name of
                     None \<Rightarrow> acc
                   | Some cur \<Rightarrow> AList.update track_name (dict_update cur track_config) acc)
            self_tracks preset_tracks)"


section \<open>Clusters, as the specification words them\<close>






section \<open>Samples of the data model\<close>

text \<open>
  The ranges the data model gives to a sample: a timestamp, hue and value shift in [0, 1],
  a non-negative intensity, a direction in [0, 360), a blob hue in [0, 180).
\<close>

definition background_sample_ok :: "bg_sample \<Rightarrow> bool" where
  "background_sample_ok e =
     (bg_time e \<noteq> None
      \<and> (case hue_shift e of None \<Rightarrow> False | Some h \<Rightarrow> 0 \<le> h \<and> h \<le> 1)
      \<and> (case value_shift e of None \<Rightarrow> False | Some v \<Rightarrow> 0 \<le> v \<and> v \<le> 1))"

definition motion_sample_ok :: "motion_sample \<Rightarrow> bool" where
  "motion_sample_ok e =
     (m_time e \<noteq> None
      \<and> (case intensity e of None \<Rightarrow> False | Some i \<Rightarrow> 0 \<le> i)
      \<and> (case direction e of None \<Rightarrow> False | Some d \<Rightarrow> 0 \<le> d \<and> d < 360))"

definition detail_event_ok :: "detail_event \<Rightarrow> bool" where
  "detail_event_ok e =
     (d_time e \<noteq> None
      \<and> (case d_hue e of None \<Rightarrow> False | Some h \<Rightarrow> 0 \<le> h \<and> h < 180)
      \<and> (case d_size e of None \<Rightarrow> False | Some a \<Rightarrow> 0 < a))"






text \<open>A Python dictionary holds a key once; \<open>wf_pyval\<close> says so of a value, at every depth.\<close>

fun wf_pyval :: "pyval \<Rightarrow> bool"
  and wf_items :: "(string \<times> pyval) list \<Rightarrow> bool"
where
  "wf_pyval (PDict kvs) = (distinct (map fst kvs) \<and> wf_items kvs)"
| "wf_pyval v = True"
| "wf_items [] = True"
| "wf_items ((k, v) # rest) = (wf_pyval v \<and> wf_items rest)"

section \<open>Auxiliary facts\<close>

lemma bind_err_Inr [simp]: "bind_err (Inr v) f = f v"
  by (simp add: bind_err_def)

lemma bind_err_Inl [simp]: "bind_err (Inl e) f = Inl e"
  by (simp add: bind_err_def)

lemma bind_err_eq_Inr: "bind_err r f = Inr y \<longleftrightarrow> (\<exists>v. r = Inr v \<and> f v = Inr y)"
  by (cases r) simp_all




lemma py_int_nonneg: "0 \<le> x \<Longrightarrow> py_int x = \<lfloor>x\<rfloor>"
  by (simp add: py_int_def)

lemma py_int_nonneg_ge: "0 \<le> x \<Longrightarrow> 0 \<le> py_int x"
  by (simp add: py_int_def)

lemma py_int_mono: "x \<le> y \<Longrightarrow> py_int x \<le> py_int y"
proof -
  assume xy: "x \<le> y"
  consider "0 \<le> x" "0 \<le> y" | "x < 0" "0 \<le> y" | "x < 0" "y < 0"
    using xy by linarith
  then show ?thesis
  proof cases
    case 1
    then show ?thesis using xy by (simp add: py_int_def floor_mono)
  next
    case 2
    then have "\<lceil>x\<rceil> \<le> 0" and "0 \<le> \<lfloor>y\<rfloor>" by (simp_all add: ceiling_le_iff)
    then have "\<lceil>x\<rceil> \<le> \<lfloor>y\<rfloor>" by linarith
    then show ?thesis using 2 by (simp add: py_int_def)
  next
    case 3
    then show ?thesis using xy by (simp add: py_int_def ceiling_mono)
  qed
qed

lemma py_int_of_int [simp]: "py_int (of_int k) = k"
  by (simp add: py_int_def)

lemma py_int_127 [simp]: "py_int 127 = 127"
  by (simp add: py_int_def)

lemma py_int_min: "py_int (min x 127) = min 127 (py_int x)"
proof (cases "x \<le> 127")
  case True
  then have "py_int x \<le> py_int 127" by (rule py_int_mono)
  then show ?thesis using True by (simp add: min_def)
next
  case False
  then have "py_int 127 \<le> py_int x" by (intro py_int_mono) simp
  then show ?thesis using False by (simp add: min_def)
qed

lemma py_fmod_range: "0 < m \<Longrightarrow> 0 \<le> py_fmod x m \<and> py_fmod x m < m"
proof -
  assume m: "0 < m"
  have "of_int \<lfloor>x / m\<rfloor> * m \<le> x" and "x < (of_int \<lfloor>x / m\<rfloor> + 1) * m"
    using m by (rule floor_divide_lower, rule floor_divide_upper)
  then show ?thesis
    by (simp add: py_fmod_def algebra_simps)
qed

lemma data_byte_mod_value: "0 \<le> x \<Longrightarrow> data_byte (min (py_int x) 127)"
  using py_int_nonneg_ge [of x] by (simp add: data_byte_def)

lemma data_byte_sqrt_velocity:
  assumes "0 \<le> v" and "v \<le> 1"
  shows "data_byte (py_int (sqrt v * 127))"
proof -
  have "sqrt v \<le> 1" using assms by (simp add: real_sqrt_le_1_iff)
  then have hi: "sqrt v * 127 \<le> 127" by simp
  have lo: "0 \<le> sqrt v * 127" using assms by simp
  from py_int_mono [OF hi] py_int_nonneg_ge [OF lo] show ?thesis
    by (simp add: data_byte_def)
qed

lemma data_byte_intensity_velocity:
  "0 \<le> i \<Longrightarrow> data_byte (py_int (min (i * 127) 127))"
  using py_int_nonneg_ge [of "i * 127"] by (simp add: py_int_min data_byte_def)

lemma data_byte_default_hue_note:
  assumes "0 \<le> h" and "h < 180"
  shows "data_byte (py_int (real_of_int ([84, 96] ! 0) + (h / 180) * real_of_int ([84, 96] ! 1 - [84, 96] ! 0)))"
proof -
  have lo: "84 \<le> 84 + h / 180 * 12" using assms by simp
  have hi: "84 + h / 180 * 12 \<le> 96" using assms by simp
  from py_int_mono [OF lo] py_int_mono [OF hi] show ?thesis
    by (simp add: data_byte_def py_int_def)
qed

section \<open>Rounding to a double\<close>

declare bit_length.simps [simp del]

lemma pow2_pos [simp]: "0 < pow2 e"
  by (simp add: pow2_def)

lemma pow2_nonzero [simp]: "pow2 e \<noteq> 0"
  by (simp add: pow2_def)

lemma pow2_nonneg [simp]: "0 \<le> pow2 e"
  by (simp add: pow2_def)

lemma pow2_abs [simp]: "\<bar>pow2 e\<bar> = pow2 e"
  by (simp add: pow2_def)

lemma pow2_not_neg [simp]: "\<not> pow2 e < 0"
  by (simp add: pow2_def not_less)

lemma pow2_add: "pow2 (a + b) = pow2 a * pow2 b"
proof -
  have "pow2 e = 2 powr (of_int e)" for e
    by (simp add: pow2_def powr_realpow [symmetric] powr_minus field_simps)
  then show ?thesis by (simp add: powr_add)
qed

lemma bit_length_bounds: "0 < n \<Longrightarrow> 2 ^ (bit_length n - 1) \<le> n \<and> n < 2 ^ bit_length n"
proof (induction n rule: bit_length.induct)
  case (1 n)
  show ?case
  proof (cases "n div 2 = 0")
    case True
    with 1(2) have "n = 1" by (simp add: div_eq_0_iff) 
    then show ?thesis by (simp add: bit_length.simps [of "Suc 0"] bit_length.simps [of 0])
  next
    case False
    with 1 have ih: "2 ^ (bit_length (n div 2) - 1) \<le> n div 2" "n div 2 < 2 ^ bit_length (n div 2)"
      by simp_all
    have pos: "0 < bit_length (n div 2)" using False by (simp add: bit_length.simps [of "n div 2"])
    have bl: "bit_length n = Suc (bit_length (n div 2))" using 1(2) by (simp add: bit_length.simps [of n])
    have "2 ^ (bit_length n - 1) = 2 * 2 ^ (bit_length (n div 2) - 1)"
      using pos bl by (cases "bit_length (n div 2)") simp_all
    also have "\<dots> \<le> 2 * (n div 2)" using ih(1) by simp
    also have "\<dots> \<le> n" by simp
    finally have lo: "2 ^ (bit_length n - 1) \<le> n" .
    have "n < 2 * (n div 2) + 2" by presburger
    also have "\<dots> \<le> 2 * 2 ^ bit_length (n div 2)" using ih(2) by simp
    finally have "n < 2 ^ bit_length n" using bl by simp
    with lo show ?thesis by simp
  qed
qed


lemma ilog2_bounds:
  assumes "0 < y"
  shows "pow2 (ilog2 y) \<le> y \<and> y < pow2 (ilog2 y + 1)"
proof (cases "1 \<le> y")
  case True
  define n where "n = nat \<lfloor>y\<rfloor>"
  have "real n = of_int \<lfloor>y\<rfloor>" using True by (simp add: n_def)
  then have "real n \<le> y" and "y < real n + 1" by linarith+
  moreover have "0 < n" using True by (simp add: n_def)
  ultimately have n: "0 < n" "real n \<le> y" "y < real n + 1" by simp_all
  from bit_length_bounds [OF n(1)] have b: "2 ^ (bit_length n - 1) \<le> n" "n < 2 ^ bit_length n"
    by simp_all
  have pos: "0 < bit_length n" using n(1) by (simp add: bit_length.simps [of n])
  have il: "ilog2 y = int (bit_length n) - 1" using True by (simp add: ilog2_def n_def)
  have "pow2 (ilog2 y) = 2 ^ (bit_length n - 1)"
    using pos by (simp add: il pow2_def nat_diff_distrib')
  also have "\<dots> \<le> real n" using b(1) by (metis of_nat_le_iff of_nat_numeral of_nat_power)
  finally have lo: "pow2 (ilog2 y) \<le> y" using n(2) by simp
  have "real n + 1 \<le> 2 ^ bit_length n"
    using b(2) by (metis Suc_leI of_nat_Suc of_nat_le_iff of_nat_numeral of_nat_power add.commute)
  moreover have "pow2 (ilog2 y + 1) = 2 ^ bit_length n" by (simp add: il pow2_def)
  ultimately have "y < pow2 (ilog2 y + 1)" using n(3) by simp
  with lo show ?thesis by simp
next
  case False
  define r where "r = 1 / y"
  have r: "1 < r" using False assms by (simp add: r_def)
  define n where "n = nat (\<lceil>r\<rceil> - 1)"
  have c: "1 < \<lceil>r\<rceil>" using r by (simp add: less_ceiling_iff)
  have "real n = of_int \<lceil>r\<rceil> - 1" using c by (simp add: n_def)
  then have "real n < r" and "r \<le> real n + 1" by linarith+
  moreover have "0 < n" using c by (simp add: n_def)
  ultimately have n: "0 < n" "real n < r" "r \<le> real n + 1" by simp_all
  from bit_length_bounds [OF n(1)] have b: "2 ^ (bit_length n - 1) \<le> n" "n < 2 ^ bit_length n"
    by simp_all
  have pos: "0 < bit_length n" using n(1) by (simp add: bit_length.simps [of n])
  have il: "ilog2 y = - int (bit_length n)" using False by (simp add: ilog2_def n_def r_def)
  have "real n + 1 \<le> 2 ^ bit_length n"
    using b(2) by (metis Suc_leI of_nat_Suc of_nat_le_iff of_nat_numeral of_nat_power add.commute)
  with n(3) have "r \<le> 2 ^ bit_length n" by simp
  then have "1 / 2 ^ bit_length n \<le> y"
    using assms by (simp add: r_def field_simps)
  moreover have "pow2 (ilog2 y) = 1 / 2 ^ bit_length n" using pos by (simp add: il pow2_def)
  ultimately have lo: "pow2 (ilog2 y) \<le> y" by simp
  have "(2::real) ^ (bit_length n - 1) \<le> real n"
    using b(1) by (metis of_nat_le_iff of_nat_numeral of_nat_power)
  with n(2) have "2 ^ (bit_length n - 1) < r" by linarith
  then have "y < 1 / 2 ^ (bit_length n - 1)"
    using assms by (simp add: r_def field_simps)
  moreover have "pow2 (ilog2 y + 1) = 1 / 2 ^ (bit_length n - 1)"
    using pos by (cases "bit_length n") (simp_all add: il pow2_def)
  ultimately show ?thesis using lo by simp
qed

lemma round_even_error: "\<bar>of_int (round_even m) - m\<bar> \<le> 1 / 2"
  unfolding round_even_def by (auto simp: abs_if; linarith?)

lemma round_even_of_int [simp]: "round_even (of_int k) = k"
  by (simp add: round_even_def)


lemma pow2_mono: "a \<le> b \<Longrightarrow> pow2 a \<le> pow2 b"
proof -
  assume "a \<le> b"
  then obtain c where c: "b = a + c" "0 \<le> c" by (metis add.commute diff_add_cancel diff_ge_0_iff_ge)
  have "1 \<le> pow2 c" using c(2) by (simp add: pow2_def)
  then show ?thesis unfolding c(1) pow2_add by (simp add: mult_le_cancel_left1)
qed

lemma fl_of_int:
  assumes "\<bar>n\<bar> < 2 ^ 53"
  shows "fl (of_int n) = of_int n"
proof (cases "n = 0")
  case True
  then show ?thesis by (simp add: fl_def)
next
  case False
  define k where "k = ilog2 \<bar>real_of_int n\<bar>"
  have pos: "0 < \<bar>real_of_int n\<bar>" using False by simp
  from ilog2_bounds [OF pos] have lo: "pow2 k \<le> \<bar>real_of_int n\<bar>" by (simp add: k_def)
  have "\<bar>real_of_int n\<bar> < 2 ^ 53"
    using assms by (metis of_int_abs of_int_less_iff of_int_numeral of_int_power)
  also have "\<dots> = pow2 53" by (simp add: pow2_def)
  finally have "pow2 k < pow2 53" using lo by simp
  then have k: "k \<le> 52" using pow2_mono [of 53 k] by (cases "53 \<le> k") simp_all
  define j where "j = nat (52 - k)"
  have p: "pow2 (k - 52) = 1 / 2 ^ j"
    using k by (cases "k = 52") (simp_all add: pow2_def j_def)
  have "real_of_int n / pow2 (k - 52) = of_int (n * 2 ^ j)" by (simp add: p)
  then have "round_even (real_of_int n / pow2 (k - 52)) = n * 2 ^ j"
    by (simp only: round_even_of_int)
  then show ?thesis
    using False by (simp add: fl_def k_def [symmetric] p)
qed

lemma fl_error:
  assumes "x \<noteq> 0"
  shows "\<bar>fl x - x\<bar> \<le> \<bar>x\<bar> / 2 ^ 53"
proof -
  define e where "e = ilog2 \<bar>x\<bar> - 52"
  define m where "m = x / pow2 e"
  have pos: "0 < \<bar>x\<bar>" using assms by simp
  have x: "x = m * pow2 e" by (simp add: m_def)
  have "fl x - x = (of_int (round_even m) - m) * pow2 e"
    using assms by (simp add: fl_def e_def [symmetric] m_def [symmetric] algebra_simps x [symmetric])
  then have "\<bar>fl x - x\<bar> = \<bar>of_int (round_even m) - m\<bar> * pow2 e"
    by (simp add: abs_mult)
  also have "\<dots> \<le> (1 / 2) * pow2 e"
    using round_even_error [of m] by (intro mult_right_mono) simp_all
  also have "pow2 e = pow2 (ilog2 \<bar>x\<bar>) * pow2 (- 52)"
    unfolding pow2_add [symmetric] by (simp add: e_def)
  also have "(1 / 2) * (pow2 (ilog2 \<bar>x\<bar>) * pow2 (- 52)) \<le> (1 / 2) * (\<bar>x\<bar> * pow2 (- 52))"
    using ilog2_bounds [OF pos] by (intro mult_left_mono mult_right_mono) simp_all
  also have "\<dots> = \<bar>x\<bar> / 2 ^ 53" by (simp add: pow2_def)
  finally show ?thesis .
qed

lemma fl_zero [simp]: "fl 0 = 0"
  by (simp add: fl_def)

lemma fl_numeral [simp]: "(numeral k :: int) < 2 ^ 53 \<Longrightarrow> fl (numeral k) = numeral k"
  using fl_of_int [of "numeral k"] by simp

lemma fl_one [simp]: "fl 1 = 1"
  using fl_of_int [of 1] by simp

lemma ms_to_ticks_of_int:
  assumes "0 \<le> n" and "n < 2 ^ 44"
  shows "ms_to_ticks (of_int n) = n * 480 div 500"
proof -
  define q where "q = n * 480"
  have q: "0 \<le> q" "q < 2 ^ 53" using assms by (simp_all add: q_def)
  have prod: "fmul (of_int n) ticks_per_beat = of_int q"
    using fl_of_int [of q] q by (simp add: fmul_def ticks_per_beat_def q_def)
  have beat: "fdiv tempo 1000 = 500" by (simp add: fdiv_def tempo_def)
  define y where "y = real_of_int q / 500"
  have conv: "ms_to_ticks (of_int n) = py_int (fl y)"
    unfolding ms_to_ticks_def prod beat by (simp add: fdiv_def y_def)
  have "py_int (fl y) = q div 500"
  proof (cases "q mod 500 = 0")
    case True
    then have "500 dvd q" by presburger
    then have "y = of_int (q div 500)"
      by (simp add: y_def real_of_int_div)
    moreover have "\<bar>q div 500\<bar> < 2 ^ 53" using q by (simp add: abs_if; linarith?)
    ultimately show ?thesis using fl_of_int [of "q div 500"] by simp
  next
    case False
    define N where "N = q div 500"
    define r where "r = q mod 500"
    have "0 \<le> q mod 500" and "q mod 500 < 500" by simp_all
    with False have r: "1 \<le> r" "r \<le> 499" unfolding r_def by linarith+
    have qd: "q = N * 500 + r" by (simp add: N_def r_def)
    have y: "y = of_int N + of_int r / 500" by (simp add: y_def qd add_divide_distrib)
    have N0: "0 \<le> N" using q by (simp add: N_def pos_imp_zdiv_nonneg_iff)
    have ypos: "0 < y" using N0 r by (simp add: y add_nonneg_pos)
    have "y < 2 ^ 53 / 500"
      using q(2) by (simp add: y_def divide_strict_right_mono)
    then have "\<bar>y\<bar> / 2 ^ 53 < 1 / 500" using ypos by (simp add: field_simps)
    with fl_error [of y] ypos have err: "\<bar>fl y - y\<bar> < 1 / 500" by simp
    have "1 \<le> real_of_int r" and "real_of_int r \<le> 499" using r by simp_all
    then have frac: "1 / 500 \<le> y - of_int N" "y - of_int N \<le> 499 / 500"
      by (simp_all add: y)
    from err have e2: "- (1 / 500) < fl y - y" "fl y - y < 1 / 500"
      by linarith+
    have lo: "of_int N \<le> fl y" using frac(1) e2(1) by linarith
    have hi: "fl y < of_int N + 1" using frac(2) e2(2) by linarith
    have "\<lfloor>fl y\<rfloor> = N" using lo hi by (simp add: floor_unique)
    moreover have "0 \<le> fl y" using lo N0 by (metis of_int_0_le_iff order_trans)
    ultimately show ?thesis by (simp add: py_int_def N_def)
  qed
  then show ?thesis by (simp add: conv q_def)
qed

lemma ms_to_ticks_numeral [simp]:
  "(numeral k :: int) < 2 ^ 44 \<Longrightarrow> ms_to_ticks (numeral k) = numeral k * 480 div 500"
  using ms_to_ticks_of_int [of "numeral k"] by simp

lemma ms_to_ticks_0 [simp]: "ms_to_ticks 0 = 0"
  using ms_to_ticks_of_int [of 0] by simp

lemmas eval_defs =
  create_background_track_def create_medium_track_def create_details_track_def
  default_config_def empty_bg_config_def empty_medium_config_def empty_details_config_def
  get_or_def program_change_def control_change_def note_on_def note_off_def Message_def
  data_byte_def direction_to_note_def hue_to_note_def py_fmod_def py_int_def
  fsub_def add_note_cluster_def main_event_of_def Let_def

section \<open>Tick conversion\<close>

text \<open>
  C1, amended. For every whole number of milliseconds from 0 up to \<open>2 ^ 44\<close> the
  conversion returns the floor of \<open>m * 480 / 500\<close>; it sends 0 to 0 and 1000 to 960.
\<close>

theorem ms_to_ticks_floor:
  "(0 \<le> n \<and> n < 2 ^ 44 \<longrightarrow> ms_to_ticks (of_int n) = \<lfloor>real_of_int n * 480 / 500\<rfloor>)
   \<and> ms_to_ticks 0 = 0 \<and> ms_to_ticks 1000 = 960"
proof -
  have "ms_to_ticks (of_int n) = \<lfloor>real_of_int n * 480 / 500\<rfloor>" if "0 \<le> n" "n < 2 ^ 44"
  proof -
    have "\<lfloor>real_of_int n * 480 / 500\<rfloor> = \<lfloor>real_of_int (n * 480) / real_of_int 500\<rfloor>" by simp
    also have "\<dots> = n * 480 div 500" by (rule floor_divide_of_int_eq)
    finally show ?thesis using ms_to_ticks_of_int [OF that] by simp
  qed
  then show ?thesis by simp
qed

theorem ms_to_ticks_floor_witness:
  "ms_to_ticks (of_int 30) = 28 \<and> \<lfloor>real_of_int 30 * 480 / 500\<rfloor> = 28"
  using ms_to_ticks_floor [of 30] by simp

text \<open>
  The double nearest to 1000/24, the time of the second frame at 24 frames per second:
  its product with 480 rounds up to 20000, so the conversion returns 40 where the floor of
  \<open>m * 480 / 500\<close> is 39.
\<close>

theorem ms_to_ticks_fraction_counterexample:
  "(0::real) \<le> 5864062014805333 / 2 ^ 47
   \<and> ms_to_ticks (5864062014805333 / 2 ^ 47) = 40
   \<and> \<lfloor>5864062014805333 / 2 ^ 47 * 480 / 500 :: real\<rfloor> = 39"
  by (simp add: ms_to_ticks_def fmul_def fdiv_def ticks_per_beat_def tempo_def py_int_def
      fl_def ilog2_def round_even_def pow2_def bit_length.simps)

section \<open>Events of the background track\<close>





section \<open>Events of the medium track\<close>

lemma direction_to_note_eq_Inr:
  "direction_to_note angle scale octave = Inr n \<longleftrightarrow>
     scale \<noteq> [] \<and>
     n = scale ! nat (\<lfloor>py_fmod angle 360 / 360 * real (length scale)\<rfloor> mod int (length scale))
         + octave * 12"
proof -
  have "0 \<le> py_fmod angle 360 / 360 * real (length scale)"
    using py_fmod_range [of 360 angle] by simp
  then show ?thesis
    by (auto simp: direction_to_note_def Let_def py_int_nonneg)
qed









section \<open>Flushing a cluster\<close>

lemma hue_to_note_eq_Inr:
  "hue_to_note hue note_range = Inr n \<longleftrightarrow>
     2 \<le> length note_range \<and>
     n = py_int (real_of_int (note_range ! 0)
           + (hue / 180) * real_of_int (note_range ! 1 - note_range ! 0))"
  by (auto simp: hue_to_note_def)



text \<open>
  C3. Two equal events at 100 ms and a third at 300 ms, default settings. The first two
  form a cluster: its main event is emitted and the second event, equal to it, is
  skipped. The third event is a cluster of its own: the delta of its NoteOn is the tick
  conversion of 300 minus 48, the time field of the NoteOff before it, which is a delta
  in ticks; it is 241, where 200 ms after the event before it are 192 ticks.
\<close>

theorem details_track_duplicate_and_delta:
  "create_details_track default_config
     [\<lparr>d_time = Some 100, d_hue = Some 90, d_size = Some 50, d_x = None, d_y = None\<rparr>,
      \<lparr>d_time = Some 100, d_hue = Some 90, d_size = Some 50, d_x = None, d_y = None\<rparr>,
      \<lparr>d_time = Some 300, d_hue = Some 0, d_size = Some 10, d_x = None, d_y = None\<rparr>]
   = Inr [ProgramChange 2 127 0,
          NoteOn 0 90 127 96, NoteOff 0 90 64 48,
          NoteOn 0 84 127 241, NoteOff 0 84 64 48]
   \<and> ms_to_ticks (300 - 100) = 192"
  by (simp add: eval_defs)

section \<open>Clusters of the details track\<close>

lemma max_by_in: "max_by key best xs \<in> set (best # xs)"
  by (induction xs arbitrary: best) auto




lemma main_event_of_in: "events \<noteq> [] \<Longrightarrow> main_event_of events \<in> set events"
  using max_by_in [of "\<lambda>x. get_or (d_size x) 0" "hd events" "tl events"]
  by (simp add: main_event_of_def)
















section \<open>Tracks and channels of the file\<close>

text \<open>
  C9. The file built from the sample data of the module: the tracks come in the order
  header, background, medium, details, and only the program changes of the medium and
  details tracks carry channel 1 and 2; their notes are on channel 0.
\<close>

theorem multitrack_note_channels:
  "create_multitrack_midi default_config
     \<lparr>background = Some [\<lparr>bg_time = Some 0, hue_shift = Some (15/100), value_shift = Some (1/4)\<rparr>],
      medium = Some [\<lparr>m_time = Some 500, intensity = Some (5/2), direction = Some 45\<rparr>],
      details = Some [\<lparr>d_time = Some 100, d_hue = Some 90, d_size = Some 50, d_x = None, d_y = None\<rparr>,
                      \<lparr>d_time = Some 120, d_hue = Some 120, d_size = Some 30, d_x = None, d_y = None\<rparr>]\<rparr>
   = Inr \<lparr>file_ticks_per_beat = 480,
          tracks = [[SetTempo 500000],
                    [ProgramChange 0 52 0, ControlChange 0 1 19 0, NoteOn 0 36 63 0, NoteOff 0 36 64 14400],
                    [ProgramChange 1 74 0, NoteOn 0 48 127 480, NoteOff 0 48 64 480],
                    [ProgramChange 2 127 0, NoteOn 0 90 127 96, NoteOff 0 90 64 48,
                     NoteOn 0 92 90 0, NoteOff 0 92 64 28]]\<rparr>"
  by (simp add: create_multitrack_midi_def eval_defs real_sqrt_divide tempo_def ticks_per_beat_def)

section \<open>Ranges of the emitted values\<close>

lemma background_loop_ok:
  assumes "data_byte base_note"
    and "\<forall>e\<in>set data. bg_time e \<noteq> None \<and> 0 \<le> get_or (value_shift e) 0 \<and> get_or (value_shift e) 0 \<le> 1"
    and "\<forall>m\<in>set track. msg_in_range m"
  shows "\<exists>out. background_loop base_note decay last_time last_hue track data = Inr out
           \<and> (\<forall>m\<in>set out. msg_in_range m)"
  using assms(2,3)
proof (induction data arbitrary: last_time last_hue track)
  case Nil
  then show ?case by simp
next
  case (Cons e rest)
  from Cons.prems obtain t where t: "bg_time e = Some t" by auto
  let ?cc = "ControlChange 0 1 (min (py_int (\<bar>get_or (hue_shift e) 0 - last_hue\<bar> * 127)) 127)
               (ms_to_ticks (t - last_time))"
  let ?on = "NoteOn 0 base_note (py_int (sqrt (get_or (value_shift e) 0) * 127)) 0"
  let ?off = "NoteOff 0 base_note 64 (ms_to_ticks decay)"
  have v: "0 \<le> get_or (value_shift e) 0" "get_or (value_shift e) 0 \<le> 1"
    using Cons.prems(1) by simp_all
  have cc: "msg_in_range ?cc" by (simp add: data_byte_mod_value) (simp add: data_byte_def)
  have on: "msg_in_range ?on" using assms(1) v by (simp add: data_byte_sqrt_velocity)
  have off: "msg_in_range ?off" using assms(1) by (simp add: data_byte_def)
  have "\<exists>out. background_loop base_note decay t (get_or (hue_shift e) 0)
           (track @ [?cc, ?on, ?off]) rest = Inr out \<and> (\<forall>m\<in>set out. msg_in_range m)"
    using Cons.prems cc on off by (intro Cons.IH) auto
  then show ?case
    using t v cc on off
    by (simp add: Let_def control_change_def note_on_def note_off_def Message_def)
qed

lemma medium_loop_ok:
  assumes "scale \<noteq> []"
    and "\<forall>k<length scale. data_byte (scale ! k + base_octave * 12)"
    and "0 \<le> threshold"
    and "\<forall>e\<in>set data. \<not> get_or (intensity e) 0 < threshold \<longrightarrow> m_time e \<noteq> None"
    and "\<forall>m\<in>set track. msg_in_range m"
  shows "\<exists>out. medium_loop scale base_octave decay threshold last_time track data = Inr out
           \<and> (\<forall>m\<in>set out. msg_in_range m)"
  using assms(4,5)
proof (induction data arbitrary: last_time track)
  case Nil
  then show ?case by simp
next
  case (Cons e rest)
  show ?case
  proof (cases "get_or (intensity e) 0 < threshold")
    case True
    then show ?thesis using Cons by simp
  next
    case False
    with Cons.prems obtain t where t: "m_time e = Some t" by auto
    define idx where "idx = nat (\<lfloor>py_fmod (get_or (direction e) 0) 360 / 360 * real (length scale)\<rfloor>
                          mod int (length scale))"
    have len: "0 < int (length scale)" using assms(1) by simp
    have "idx < length scale"
      unfolding idx_def using pos_mod_bound [OF len] pos_mod_sign [OF len] by (simp add: nat_less_iff)
    then have pitch: "data_byte (scale ! idx + base_octave * 12)" using assms(2) by simp
    have dnote: "direction_to_note (get_or (direction e) 0) scale base_octave
                  = Inr (scale ! idx + base_octave * 12)"
      using assms(1) by (simp add: direction_to_note_eq_Inr idx_def)
    have i: "0 \<le> get_or (intensity e) 0" using False assms(3) by simp
    let ?on = "NoteOn 0 (scale ! idx + base_octave * 12)
                 (py_int (min (get_or (intensity e) 0 * 127) 127)) (ms_to_ticks (t - last_time))"
    let ?off = "NoteOff 0 (scale ! idx + base_octave * 12) 64 (ms_to_ticks decay)"
    have on: "msg_in_range ?on" using pitch data_byte_intensity_velocity [OF i] by simp
    have off: "msg_in_range ?off" using pitch by (simp add: data_byte_def)
    have "\<exists>out. medium_loop scale base_octave decay threshold t (track @ [?on, ?off]) rest = Inr out
             \<and> (\<forall>m\<in>set out. msg_in_range m)"
      using Cons.prems on off by (intro Cons.IH) auto
    then show ?thesis
      using False t dnote on off
      by (simp add: Let_def note_on_def note_off_def Message_def)
  qed
qed

lemma secondary_loop_ok:
  assumes "2 \<le> length note_range"
    and "\<forall>e\<in>set events. data_byte (py_int (real_of_int (note_range ! 0)
            + (get_or (d_hue e) 0 / 180) * real_of_int (note_range ! 1 - note_range ! 0)))"
    and "\<forall>m\<in>set track. msg_in_range m"
  shows "\<exists>out. secondary_loop note_range main_event track events = Inr out
           \<and> (\<forall>m\<in>set out. msg_in_range m)"
  using assms(2,3)
proof (induction events arbitrary: track)
  case Nil
  then show ?case by simp
next
  case (Cons e rest)
  show ?case
  proof (cases "e = main_event")
    case True
    then show ?thesis using Cons by simp
  next
    case False
    define n where "n = py_int (real_of_int (note_range ! 0)
            + (get_or (d_hue e) 0 / 180) * real_of_int (note_range ! 1 - note_range ! 0))"
    have n: "data_byte n" using Cons.prems(1) by (simp add: n_def)
    have hn: "hue_to_note (get_or (d_hue e) 0) note_range = Inr n"
      using assms(1) by (simp add: hue_to_note_eq_Inr n_def)
    have "\<exists>out. secondary_loop note_range main_event (track @ [NoteOn 0 n 90 0, NoteOff 0 n 64 28]) rest
             = Inr out \<and> (\<forall>m\<in>set out. msg_in_range m)"
      using Cons.prems n by (intro Cons.IH) (auto simp: data_byte_def)
    then show ?thesis
      using False hn n by (simp add: note_on_def note_off_def Message_def data_byte_def)
  qed
qed

lemma add_note_cluster_ok:
  assumes "2 \<le> length note_range"
    and "\<forall>e\<in>set events. d_time e \<noteq> None \<and> data_byte (py_int (real_of_int (note_range ! 0)
            + (get_or (d_hue e) 0 / 180) * real_of_int (note_range ! 1 - note_range ! 0)))"
    and "\<forall>m\<in>set track. msg_in_range m"
  shows "\<exists>out. add_note_cluster track events note_range = Inr out
           \<and> (\<forall>m\<in>set out. msg_in_range m)"
proof (cases "events = []")
  case True
  then show ?thesis using assms(3) by (simp add: add_note_cluster_def)
next
  case False
  define main where "main = main_event_of events"
  have main_in: "main \<in> set events" using False by (simp add: main_def main_event_of_in)
  define n where "n = py_int (real_of_int (note_range ! 0)
            + (get_or (d_hue main) 0 / 180) * real_of_int (note_range ! 1 - note_range ! 0))"
  have n: "data_byte n" using assms(2) main_in by (simp add: n_def)
  have hn: "hue_to_note (get_or (d_hue main) 0) note_range = Inr n"
    using assms(1) by (simp add: hue_to_note_eq_Inr n_def)
  from assms(2) main_in obtain t where t: "d_time main = Some t" by auto
  define delta where "delta = (if track \<noteq> [] then ms_to_ticks (fsub t (real_of_int (msg_time (last track))))
                               else ms_to_ticks 0)"
  have "\<exists>out. secondary_loop note_range main (track @ [NoteOn 0 n 127 delta, NoteOff 0 n 64 48]) events
           = Inr out \<and> (\<forall>m\<in>set out. msg_in_range m)"
    using assms n by (intro secondary_loop_ok) (auto simp: data_byte_def)
  then show ?thesis
    using False hn n t
    by (cases "track = []")
       (simp_all add: add_note_cluster_def main_def [symmetric] note_on_def note_off_def
          Message_def data_byte_def delta_def)
qed

lemma details_loop_ok:
  assumes "2 \<le> length note_range"
    and "\<forall>e\<in>set current \<union> set data. d_time e \<noteq> None \<and> data_byte (py_int (real_of_int (note_range ! 0)
            + (get_or (d_hue e) 0 / 180) * real_of_int (note_range ! 1 - note_range ! 0)))"
    and "\<forall>m\<in>set track. msg_in_range m"
  shows "\<exists>out. details_loop group_threshold note_range track current data = Inr out
           \<and> (\<forall>m\<in>set out. msg_in_range m)"
  using assms(2,3)
proof (induction data arbitrary: track current)
  case Nil
  then show ?case using add_note_cluster_ok [OF assms(1), of current track] by simp
next
  case (Cons e rest)
  from Cons.prems obtain t where t: "d_time e = Some t" by auto
  show ?case
  proof (cases "current = []")
    case True
    have "\<exists>out. details_loop group_threshold note_range track [e] rest = Inr out
             \<and> (\<forall>m\<in>set out. msg_in_range m)"
      using Cons.prems by (intro Cons.IH) auto
    then show ?thesis using True t by simp
  next
    case False
    then have "last current \<in> set current" by simp
    with Cons.prems obtain t' where t': "d_time (last current) = Some t'" by auto
    show ?thesis
    proof (cases "group_threshold < fsub t t'")
      case True
      from add_note_cluster_ok [OF assms(1), of current track] Cons.prems
      obtain track' where fl: "add_note_cluster track current note_range = Inr track'"
        and r: "\<forall>m\<in>set track'. msg_in_range m" by auto
      have "\<exists>out. details_loop group_threshold note_range track' [e] rest = Inr out
               \<and> (\<forall>m\<in>set out. msg_in_range m)"
        using Cons.prems r by (intro Cons.IH) auto
      then show ?thesis using False True t t' fl by simp
    next
      case nogap: False
      have "\<exists>out. details_loop group_threshold note_range track (current @ [e]) rest = Inr out
               \<and> (\<forall>m\<in>set out. msg_in_range m)"
        using Cons.prems by (intro Cons.IH) auto
      then show ?thesis using False nogap t t' by simp
    qed
  qed
qed

lemma create_background_track_ok:
  assumes "\<forall>e\<in>set data. background_sample_ok e"
  shows "\<exists>out. create_background_track default_config data = Inr out
           \<and> (\<forall>m\<in>set out. msg_in_range m)"
proof -
  have "\<forall>e\<in>set data. bg_time e \<noteq> None \<and> 0 \<le> get_or (value_shift e) 0
          \<and> get_or (value_shift e) 0 \<le> 1"
    using assms by (auto simp: background_sample_ok_def get_or_def split: option.splits)
  then have "\<exists>out. background_loop 36 15000 0 0 [ProgramChange 0 52 0] data = Inr out
           \<and> (\<forall>m\<in>set out. msg_in_range m)"
    by (intro background_loop_ok) (simp_all add: data_byte_def)
  then show ?thesis
    by (simp add: create_background_track_def default_config_def get_or_def program_change_def
        Message_def data_byte_def)
qed

lemma create_medium_track_ok:
  assumes "\<forall>e\<in>set data. motion_sample_ok e"
  shows "\<exists>out. create_medium_track default_config data = Inr out
           \<and> (\<forall>m\<in>set out. msg_in_range m)"
proof -
  have t: "\<forall>e\<in>set data. \<not> get_or (intensity e) 0 < 1 \<longrightarrow> m_time e \<noteq> None"
    using assms by (auto simp: motion_sample_ok_def)
  have sc: "\<forall>k<length [0, 2, 4, 7, 9 :: int]. data_byte ([0, 2, 4, 7, 9] ! k + 4 * 12)"
    by (simp add: data_byte_def less_Suc_eq all_conj_distrib numeral_eq_Suc)
  have "\<exists>out. medium_loop [0, 2, 4, 7, 9] 4 500 1 0 [ProgramChange 1 74 0] data = Inr out
           \<and> (\<forall>m\<in>set out. msg_in_range m)"
    using sc t by (intro medium_loop_ok) (simp_all add: data_byte_def)
  then show ?thesis
    by (simp add: create_medium_track_def default_config_def get_or_def program_change_def
        Message_def data_byte_def)
qed

lemma create_details_track_ok:
  assumes "\<forall>e\<in>set data. detail_event_ok e"
  shows "\<exists>out. create_details_track default_config data = Inr out
           \<and> (\<forall>m\<in>set out. msg_in_range m)"
proof -
  have "\<forall>e\<in>set [] \<union> set data. d_time e \<noteq> None
          \<and> data_byte (py_int (real_of_int ([84, 96] ! 0)
               + (get_or (d_hue e) 0 / 180) * real_of_int ([84, 96] ! 1 - [84, 96] ! 0)))"
  proof
    fix e assume "e \<in> set [] \<union> set data"
    with assms have ok: "detail_event_ok e" by simp
    then obtain h where h: "d_hue e = Some h" "0 \<le> h" "h < 180"
      by (auto simp: detail_event_ok_def split: option.splits)
    from ok have "d_time e \<noteq> None" by (simp add: detail_event_ok_def)
    moreover have "data_byte (py_int (real_of_int ([84, 96] ! 0)
               + (get_or (d_hue e) 0 / 180) * real_of_int ([84, 96] ! 1 - [84, 96] ! 0)))"
      using data_byte_default_hue_note [OF h(2,3)] h(1) by (simp add: get_or_def)
    ultimately show "d_time e \<noteq> None
          \<and> data_byte (py_int (real_of_int ([84, 96] ! 0)
               + (get_or (d_hue e) 0 / 180) * real_of_int ([84, 96] ! 1 - [84, 96] ! 0)))"
      by simp
  qed
  then have "\<exists>out. details_loop 50 [84, 96] [ProgramChange 2 127 0] [] data = Inr out
           \<and> (\<forall>m\<in>set out. msg_in_range m)"
    by (intro details_loop_ok) (simp_all add: data_byte_def)
  then show ?thesis
    by (simp add: create_details_track_def default_config_def get_or_def program_change_def
        Message_def data_byte_def)
qed

text \<open>
  C10. On samples within the ranges of the data model and with the default settings the
  three builders return, so that no message failed its range check, and in the file
  every note, velocity, controller value and program lies in 0..127 and every channel in
  0..15.
\<close>

theorem score_events_in_range:
  assumes "\<forall>e\<in>set (get_or (background data) []). background_sample_ok e"
    and "\<forall>e\<in>set (get_or (medium data) []). motion_sample_ok e"
    and "\<forall>e\<in>set (get_or (details data) []). detail_event_ok e"
  shows "\<exists>f. create_multitrack_midi default_config data = Inr f
           \<and> (\<forall>track\<in>set (tracks f). \<forall>m\<in>set track. msg_in_range m)"
proof -
  from create_background_track_ok [OF assms(1)] obtain bg where
    bg: "create_background_track default_config (get_or (background data) []) = Inr bg"
      "\<forall>m\<in>set bg. msg_in_range m" by blast
  from create_medium_track_ok [OF assms(2)] obtain med where
    med: "create_medium_track default_config (get_or (medium data) []) = Inr med"
      "\<forall>m\<in>set med. msg_in_range m" by blast
  from create_details_track_ok [OF assms(3)] obtain det where
    det: "create_details_track default_config (get_or (details data) []) = Inr det"
      "\<forall>m\<in>set det. msg_in_range m" by blast
  from bg med det show ?thesis
    by (simp add: create_multitrack_midi_def)
qed

theorem score_events_in_range_witness:
  "\<exists>f. create_multitrack_midi default_config
     \<lparr>background = Some [\<lparr>bg_time = Some 0, hue_shift = Some (15/100), value_shift = Some (3/10)\<rparr>],
      medium = Some [\<lparr>m_time = Some 500, intensity = Some (5/2), direction = Some 45\<rparr>],
      details = Some [\<lparr>d_time = Some 100, d_hue = Some 90, d_size = Some 50, d_x = Some 3, d_y = Some 4\<rparr>,
                      \<lparr>d_time = Some 120, d_hue = Some 120, d_size = Some 30, d_x = Some 7, d_y = Some 8\<rparr>]\<rparr>
     = Inr f \<and> length (tracks f) = 4 \<and> list_all (list_all msg_in_range) (tracks f)"
proof -
  let ?d = "\<lparr>background = Some [\<lparr>bg_time = Some 0, hue_shift = Some (15/100), value_shift = Some (3/10)\<rparr>],
      medium = Some [\<lparr>m_time = Some 500, intensity = Some (5/2), direction = Some 45\<rparr>],
      details = Some [\<lparr>d_time = Some 100, d_hue = Some 90, d_size = Some 50, d_x = Some 3, d_y = Some 4\<rparr>,
                      \<lparr>d_time = Some 120, d_hue = Some 120, d_size = Some 30, d_x = Some 7, d_y = Some 8\<rparr>]\<rparr>"
  have 1: "\<forall>e\<in>set (get_or (background ?d) []). background_sample_ok e"
    by (simp add: get_or_def background_sample_ok_def)
  have 2: "\<forall>e\<in>set (get_or (medium ?d) []). motion_sample_ok e"
    by (simp add: get_or_def motion_sample_ok_def)
  have 3: "\<forall>e\<in>set (get_or (details ?d) []). detail_event_ok e"
    by (simp add: get_or_def detail_event_ok_def)
  from score_events_in_range [OF 1 2 3] obtain f where
    f: "create_multitrack_midi default_config ?d = Inr f"
      "\<forall>track\<in>set (tracks f). \<forall>m\<in>set track. msg_in_range m" by blast
  from f(1) have "length (tracks f) = 4"
    by (auto simp: create_multitrack_midi_def bind_err_eq_Inr)
  with f show ?thesis by (auto simp: list_all_iff)
qed

section \<open>Samples with missing fields\<close>









section \<open>Deep merge and presets\<close>

lemma wf_items_member: "wf_items us \<Longrightarrow> (k, v) \<in> set us \<Longrightarrow> wf_pyval v"
  by (induction us) auto

lemma merge_items_untouched:
  "merge_items acc us = Inr r \<Longrightarrow> k \<notin> fst ` set us \<Longrightarrow> map_of r k = map_of acc k"
proof (induction us arbitrary: acc)
  case Nil
  then show ?case by simp
next
  case (Cons kv rest)
  obtain k' v where kv: "kv = (k', v)" by (cases kv)
  from Cons.prems(2) kv have ne: "k \<noteq> k'" and notin: "k \<notin> fst ` set rest" by auto
  show ?case
  proof (cases "is_dict v \<and> map_of acc k' \<noteq> None")
    case True
    with Cons.prems(1) kv obtain m where
      "merge_items (AList.update k' m acc) rest = Inr r"
      by (auto simp: bind_err_eq_Inr)
    from Cons.IH [OF this notin] ne show ?thesis by (simp add: update_conv')
  next
    case False
    with Cons.prems(1) kv have "merge_items (AList.update k' v acc) rest = Inr r"
      by auto
    from Cons.IH [OF this notin] ne show ?thesis by (simp add: update_conv')
  qed
qed

lemma merge_items_fixpoint:
  "\<forall>(k, v)\<in>set us. \<exists>v'. map_of acc k = Some v'
      \<and> (if is_dict v then merge_configs v' v = Inr v' else v' = v) \<Longrightarrow>
   merge_items acc us = Inr acc"
proof (induction us)
  case Nil
  show ?case by simp
next
  case (Cons kv rest)
  obtain k v where kv: "kv = (k, v)" by (cases kv)
  from Cons.prems kv obtain v' where v': "map_of acc k = Some v'"
    and fx: "if is_dict v then merge_configs v' v = Inr v' else v' = v" by auto
  have rest: "merge_items acc rest = Inr acc" using Cons by auto
  show ?case
  proof (cases "is_dict v")
    case True
    with fx have "merge_configs v' v = Inr v'" by simp
    then show ?thesis using kv v' True rest by (simp add: update_triv)
  next
    case False
    with fx have "v' = v" by simp
    then show ?thesis using kv v' False rest by (simp add: update_triv)
  qed
qed

lemma merge_items_key:
  assumes "distinct (map fst us)" and "merge_items acc us = Inr r" and "(k, v) \<in> set us"
  shows "if is_dict v \<and> map_of acc k \<noteq> None
         then \<exists>m. merge_configs (the (map_of acc k)) v = Inr m \<and> map_of r k = Some m
         else map_of r k = Some v"
  using assms
proof (induction us arbitrary: acc)
  case Nil
  then show ?case by simp
next
  case (Cons kv rest)
  obtain k0 v0 where kv: "kv = (k0, v0)" by (cases kv)
  from Cons.prems(1) kv have k0: "k0 \<notin> fst ` set rest" and dist: "distinct (map fst rest)"
    by auto
  show ?case
  proof (cases "(k, v) = (k0, v0)")
    case True
    show ?thesis
    proof (cases "is_dict v \<and> map_of acc k \<noteq> None")
      case dict: True
      with Cons.prems(2) kv True obtain m where
        m: "merge_configs (the (map_of acc k)) v = Inr m"
        and rest: "merge_items (AList.update k m acc) rest = Inr r"
        by (auto simp: bind_err_eq_Inr)
      from merge_items_untouched [OF rest] k0 True have "map_of r k = Some m"
        by (simp add: update_conv')
      with m dict show ?thesis by simp
    next
      case leaf: False
      with Cons.prems(2) kv True have rest: "merge_items (AList.update k v acc) rest = Inr r"
        by auto
      from merge_items_untouched [OF rest] k0 True have "map_of r k = Some v"
        by (simp add: update_conv')
      then show ?thesis using leaf by (simp only: if_False)
    qed
  next
    case False
    with Cons.prems(3) kv have mem: "(k, v) \<in> set rest" by auto
    with k0 have ne: "k \<noteq> k0" by force
    show ?thesis
    proof (cases "is_dict v0 \<and> map_of acc k0 \<noteq> None")
      case True
      with Cons.prems(2) kv obtain m where
        rest: "merge_items (AList.update k0 m acc) rest = Inr r"
        by (auto simp: bind_err_eq_Inr)
      have eq: "map_of (AList.update k0 m acc) k = map_of acc k"
        using ne by (simp add: update_conv')
      from Cons.IH [OF dist rest mem] show ?thesis unfolding eq .
    next
      case leaf: False
      with Cons.prems(2) kv have rest: "merge_items (AList.update k0 v0 acc) rest = Inr r"
        by auto
      have eq: "map_of (AList.update k0 v0 acc) k = map_of acc k"
        using ne by (simp add: update_conv')
      from Cons.IH [OF dist rest mem] show ?thesis unfolding eq .
    qed
  qed
qed

lemma merge_self_and_idempotent:
  "wf_pyval u \<Longrightarrow>
     (is_dict u \<longrightarrow> merge_configs u u = Inr u)
     \<and> (\<forall>d r. merge_configs d u = Inr r \<longrightarrow> merge_configs r u = Inr r)"
proof (induction u)
  case (PDict us)
  from PDict.prems have dist: "distinct (map fst us)" and wf: "wf_items us" by simp_all
  have ih: "(is_dict v \<longrightarrow> merge_configs v v = Inr v)
     \<and> (\<forall>d r. merge_configs d v = Inr r \<longrightarrow> merge_configs r v = Inr r)"
    if "(k, v) \<in> set us" for k v
    using that PDict.IH [of "(k, v)" v] wf_items_member [OF wf that] by simp
  have self: "merge_items us us = Inr us"
  proof (rule merge_items_fixpoint, clarify)
    fix k v assume mem: "(k, v) \<in> set us"
    with dist have "map_of us k = Some v" by simp
    with ih [OF mem] show "\<exists>v'. map_of us k = Some v'
        \<and> (if is_dict v then merge_configs v' v = Inr v' else v' = v)" by simp
  qed
  have idem: "merge_configs r (PDict us) = Inr r" if run: "merge_configs d (PDict us) = Inr r" for d r
  proof (cases d)
    case (PDict ds)
    with run obtain rs where r: "r = PDict rs" and rs: "merge_items ds us = Inr rs"
      by (auto simp: bind_err_eq_Inr)
    have "merge_items rs us = Inr rs"
    proof (rule merge_items_fixpoint, clarify)
      fix k v assume mem: "(k, v) \<in> set us"
      show "\<exists>v'. map_of rs k = Some v'
          \<and> (if is_dict v then merge_configs v' v = Inr v' else v' = v)"
      proof (cases "is_dict v \<and> map_of ds k \<noteq> None")
        case True
        with merge_items_key [OF dist rs mem] obtain m where
          m: "merge_configs (the (map_of ds k)) v = Inr m" "map_of rs k = Some m" by auto
        from ih [OF mem] m(1) have "merge_configs m v = Inr m" by blast
        with m(2) True show ?thesis by simp
      next
        case False
        with merge_items_key [OF dist rs mem] have "map_of rs k = Some v" by simp
        with ih [OF mem] show ?thesis by auto
      qed
    qed
    with r show ?thesis by simp
  next
    case (PList xs)
    with run have "us = []" and "r = PList xs" by (cases us, simp_all)+
    then show ?thesis by simp
  qed (use run in simp_all)
  from self idem show ?case by simp
qed simp_all

lemma dict_update_Nil [simp]: "dict_update d [] = d"
  by (simp add: dict_update_def)

lemma dict_update_Cons [simp]:
  "dict_update d ((k, v) # rest) = dict_update (AList.update k v d) rest"
  by (simp add: dict_update_def)

lemma dict_update_untouched:
  "k \<notin> fst ` set other \<Longrightarrow> map_of (dict_update d other) k = map_of d k"
  by (induction other arbitrary: d) (auto simp: update_conv')

lemma dict_update_key:
  "distinct (map fst other) \<Longrightarrow> (k, v) \<in> set other \<Longrightarrow> map_of (dict_update d other) k = Some v"
proof (induction other arbitrary: d)
  case Nil
  then show ?case by simp
next
  case (Cons kv rest)
  obtain k0 v0 where kv: "kv = (k0, v0)" by (cases kv)
  show ?case
  proof (cases "(k, v) = (k0, v0)")
    case True
    with Cons.prems kv have "k \<notin> fst ` set rest" by auto
    then show ?thesis using kv True by (simp add: dict_update_untouched update_conv')
  next
    case False
    with Cons.prems kv have "(k, v) \<in> set rest" and "distinct (map fst rest)" by auto
    then show ?thesis using kv Cons.IH by simp
  qed
qed

lemma dict_update_fixpoint:
  "\<forall>(k, v)\<in>set other. map_of r k = Some v \<Longrightarrow> dict_update r other = r"
  by (induction other) (auto simp: update_triv)

lemma dict_update_idem:
  "distinct (map fst other) \<Longrightarrow> dict_update (dict_update d other) other = dict_update d other"
  by (rule dict_update_fixpoint) (auto simp: dict_update_key)

lemma config_update_Nil [simp]: "config_update t (Some []) = t"
  by (simp add: config_update_def)

lemma config_update_Cons [simp]:
  "config_update t (Some ((n, c) # rest)) =
     config_update (case map_of t n of None \<Rightarrow> t
                    | Some cur \<Rightarrow> AList.update n (dict_update cur c) t) (Some rest)"
  by (simp add: config_update_def)

lemma config_update_untouched:
  "n \<notin> fst ` set p \<Longrightarrow> map_of (config_update t (Some p)) n = map_of t n"
  by (induction p arbitrary: t) (auto simp: update_conv' split: option.splits)

lemma config_update_key:
  "distinct (map fst p) \<Longrightarrow> (n, c) \<in> set p \<Longrightarrow>
   map_of (config_update t (Some p)) n = map_option (\<lambda>cur. dict_update cur c) (map_of t n)"
proof (induction p arbitrary: t)
  case Nil
  then show ?case by simp
next
  case (Cons nc rest)
  obtain n0 c0 where nc: "nc = (n0, c0)" by (cases nc)
  show ?case
  proof (cases "(n, c) = (n0, c0)")
    case True
    with Cons.prems nc have "n \<notin> fst ` set rest" by auto
    then show ?thesis using nc True
      by (simp add: config_update_untouched update_conv' split: option.splits)
  next
    case False
    with Cons.prems nc have mem: "(n, c) \<in> set rest" and dist: "distinct (map fst rest)"
      and ne: "n \<noteq> n0" by (auto simp: rev_image_eqI)
    show ?thesis using nc ne Cons.IH [OF dist mem]
      by (simp add: update_conv' split: option.splits)
  qed
qed

lemma config_update_fixpoint:
  "\<forall>(n, c)\<in>set p. \<forall>x. map_of s n = Some x \<longrightarrow> dict_update x c = x \<Longrightarrow>
   config_update s (Some p) = s"
  by (induction p) (auto simp: update_triv split: option.splits)

lemma config_update_idem:
  assumes "distinct (map fst p)" and "\<forall>(n, c)\<in>set p. distinct (map fst c)"
  shows "config_update (config_update t (Some p)) (Some p) = config_update t (Some p)"
proof (rule config_update_fixpoint, clarify)
  fix n c x
  assume mem: "(n, c) \<in> set p" and x: "map_of (config_update t (Some p)) n = Some x"
  from config_update_key [OF assms(1) mem, of t] x obtain cur where "x = dict_update cur c"
    by (cases "map_of t n") auto
  moreover have "distinct (map fst c)" using assms(2) mem by auto
  ultimately show "dict_update x c = x" by (simp add: dict_update_idem)
qed

text \<open>
  What holds when the deep merge returns: the result is a map that holds the default
  value at every key the user omits, the user's value at every key where the user gives
  a value that is not a map or the default has no entry, and the merge of the two nested
  maps elsewhere; merging the same user map over the result again returns the result
  unchanged. Applying a preset with \<open>Config.update\<close> a second time changes nothing either.
\<close>

lemma merge_returns_user_wins_idempotent:
  assumes "wf_pyval (PDict user)"
    and "merge_configs (PDict defaults) (PDict user) = Inr r"
  shows "(\<exists>rs. r = PDict rs
            \<and> (\<forall>k. k \<notin> fst ` set user \<longrightarrow> map_of rs k = map_of defaults k)
            \<and> (\<forall>k v. (k, v) \<in> set user \<longrightarrow>
                  (if is_dict v \<and> map_of defaults k \<noteq> None
                   then \<exists>m. merge_configs (the (map_of defaults k)) v = Inr m \<and> map_of rs k = Some m
                   else map_of rs k = Some v)))
         \<and> merge_configs r (PDict user) = Inr r
         \<and> (distinct (map fst preset) \<and> (\<forall>(n, c)\<in>set preset. distinct (map fst c)) \<longrightarrow>
              config_update (config_update track_table (Some preset)) (Some preset)
                = config_update track_table (Some preset))"
proof -
  from assms(2) obtain rs where r: "r = PDict rs" and rs: "merge_items defaults user = Inr rs"
    by (auto simp: bind_err_eq_Inr)
  from assms(1) have dist: "distinct (map fst user)" by simp
  have omitted: "\<forall>k. k \<notin> fst ` set user \<longrightarrow> map_of rs k = map_of defaults k"
    using merge_items_untouched [OF rs] by blast
  have supplied: "\<forall>k v. (k, v) \<in> set user \<longrightarrow>
        (if is_dict v \<and> map_of defaults k \<noteq> None
         then \<exists>m. merge_configs (the (map_of defaults k)) v = Inr m \<and> map_of rs k = Some m
         else map_of rs k = Some v)"
    using merge_items_key [OF dist rs] by blast
  have again: "merge_configs r (PDict user) = Inr r"
    using merge_self_and_idempotent [OF assms(1)] assms(2) by blast
  have preset: "distinct (map fst preset) \<and> (\<forall>(n, c)\<in>set preset. distinct (map fst c)) \<longrightarrow>
      config_update (config_update track_table (Some preset)) (Some preset)
        = config_update track_table (Some preset)"
    using config_update_idem [of preset track_table] by blast
  from r omitted supplied again preset show ?thesis by blast
qed

text \<open>
  C8. The defaults hold the number 52 at \<open>tracks.background.program\<close> and the user's file
  nests a map there. The merge recurses because the key exists in the defaults, calls
  \<open>copy\<close> on the number and raises AttributeError; the user's value does not win.
\<close>

theorem deep_merge_nested_over_number_raises:
  "merge_configs
     (PDict [(''tracks'', PDict [(''background'', PDict [(''program'', PNum 52)])])])
     (PDict [(''tracks'', PDict [(''background'', PDict [(''program'', PDict [(''bank'', PNum 1)])])])])
   = Inl AttributeError"
  by simp

end
